theory Spec2Isabelle
  imports Main
begin

section \<open>The CSS selector builder of src/task/08-objects-tasks.js\<close>

text \<open>
  A selector object has up to six own properties. A property that was never assigned is
  \<open>undefined\<close> (the prototype does not declare it): that is \<open>None\<close> here. The three
  list properties hold JavaScript arrays, the three others hold the token given by the
  caller, taken to be a string.
\<close>

record selector =
  elementName :: "string option"
  idName :: "string option"
  className :: "string list option"
  attrName :: "string list option"
  pseudoClassName :: "string list option"
  pseudoElementName :: "string option"

text \<open>The two strings \<open>err_E\<close> and \<open>err_S\<close> of the prototype, which the methods throw.\<close>

datatype error = err_E | err_S

text \<open>
  The guards of the methods and of \<open>stringify\<close> test a property for truthiness:
  \<open>undefined\<close> and the empty string are falsy, every array is truthy.
\<close>

definition truthy_str :: "string option \<Rightarrow> bool" where
  "truthy_str v = (case v of None \<Rightarrow> False | Some s \<Rightarrow> s \<noteq> [])"

definition truthy_arr :: "string list option \<Rightarrow> bool" where
  "truthy_arr v = (case v of None \<Rightarrow> False | Some a \<Rightarrow> True)"

text \<open>
  A method call on the object \<open>this\<close> gives a pair: the thrown string if the call threw
  (\<open>None\<close> when it returned), and the properties of \<open>this\<close> after the call. A call that
  returns hands back \<open>this\<close> itself, so the second component is also the returned object.
\<close>

type_synonym outcome = "error option \<times> selector"

definition sel_element :: "string \<Rightarrow> selector \<Rightarrow> outcome" where
  "sel_element val this =
    (if truthy_str (elementName this) then (Some err_E, this)
     else if truthy_str (idName this) \<or> truthy_arr (className this) \<or> truthy_arr (attrName this)
             \<or> truthy_arr (pseudoClassName this) \<or> truthy_str (pseudoElementName this)
       then (Some err_S, this)
     else (None, this\<lparr>elementName := Some val\<rparr>))"

definition sel_id :: "string \<Rightarrow> selector \<Rightarrow> outcome" where
  "sel_id val this =
    (if truthy_str (idName this) then (Some err_E, this)
     else if truthy_arr (className this) \<or> truthy_arr (attrName this)
             \<or> truthy_arr (pseudoClassName this) \<or> truthy_str (pseudoElementName this)
       then (Some err_S, this)
     else (None, this\<lparr>idName := Some val\<rparr>))"

definition sel_class :: "string \<Rightarrow> selector \<Rightarrow> outcome" where
  "sel_class val this =
    (if truthy_arr (attrName this) \<or> truthy_arr (pseudoClassName this)
          \<or> truthy_str (pseudoElementName this)
       then (Some err_S, this)
     else (case className this of
             None \<Rightarrow> (None, this\<lparr>className := Some [val]\<rparr>)
           | Some a \<Rightarrow> (None, this\<lparr>className := Some (a @ [val])\<rparr>)))"

definition sel_attr :: "string \<Rightarrow> selector \<Rightarrow> outcome" where
  "sel_attr val this =
    (if truthy_arr (pseudoClassName this) \<or> truthy_str (pseudoElementName this)
       then (Some err_S, this)
     else (case attrName this of
             None \<Rightarrow> (None, this\<lparr>attrName := Some [val]\<rparr>)
           | Some a \<Rightarrow> (None, this\<lparr>attrName := Some (a @ [val])\<rparr>)))"

definition sel_pseudoClass :: "string \<Rightarrow> selector \<Rightarrow> outcome" where
  "sel_pseudoClass val this =
    (if truthy_str (pseudoElementName this) then (Some err_S, this)
     else (case pseudoClassName this of
             None \<Rightarrow> (None, this\<lparr>pseudoClassName := Some [val]\<rparr>)
           | Some a \<Rightarrow> (None, this\<lparr>pseudoClassName := Some (a @ [val])\<rparr>)))"

definition sel_pseudoElement :: "string \<Rightarrow> selector \<Rightarrow> outcome" where
  "sel_pseudoElement val this =
    (if truthy_str (pseudoElementName this) then (Some err_E, this)
     else (None, this\<lparr>pseudoElementName := Some val\<rparr>))"

text \<open>\<open>Array.prototype.join\<close> on an array of strings.\<close>

fun join :: "string \<Rightarrow> string list \<Rightarrow> string" where
  "join sep [] = []"
| "join sep [x] = x"
| "join sep (x # y # ys) = x @ sep @ join sep (y # ys)"

text \<open>
  The conditional pieces of \<open>stringify\<close>: \<open>p ? f(p) : ''\<close> for a token and for an array.
\<close>

definition part_str :: "string option \<Rightarrow> (string \<Rightarrow> string) \<Rightarrow> string" where
  "part_str v f = (case v of None \<Rightarrow> [] | Some s \<Rightarrow> if s \<noteq> [] then f s else [])"

definition part_arr :: "string list option \<Rightarrow> (string list \<Rightarrow> string) \<Rightarrow> string" where
  "part_arr v f = (case v of None \<Rightarrow> [] | Some a \<Rightarrow> f a)"

definition stringify :: "selector \<Rightarrow> string" where
  "stringify this =
     part_str (elementName this) (\<lambda>e. e) @
     part_str (idName this) (\<lambda>i. ''#'' @ i) @
     part_arr (className this) (\<lambda>a. ''.'' @ join ''.'' a) @
     part_arr (attrName this) (\<lambda>a. ''['' @ join '','' a @ '']'') @
     part_arr (pseudoClassName this) (\<lambda>a. '':'' @ join '':'' a) @
     part_str (pseudoElementName this) (\<lambda>p. ''::'' @ p)"

text \<open>
  The facade \<open>cssSelectorBuilder\<close>: each entry point builds \<open>new Selector(new
  InitialState(name, value))\<close>, a fresh object whose only own property is
  \<open>name + "Name"\<close>, holding the token or the one-element array \<open>[value]\<close>.
\<close>

definition Selector :: selector where
  "Selector = \<lparr>elementName = None, idName = None, className = None, attrName = None,
                pseudoClassName = None, pseudoElementName = None\<rparr>"

definition builder_element :: "string \<Rightarrow> selector" where
  "builder_element val = Selector\<lparr>elementName := Some val\<rparr>"

definition builder_id :: "string \<Rightarrow> selector" where
  "builder_id val = Selector\<lparr>idName := Some val\<rparr>"

definition builder_class :: "string \<Rightarrow> selector" where
  "builder_class val = Selector\<lparr>className := Some [val]\<rparr>"

definition builder_attr :: "string \<Rightarrow> selector" where
  "builder_attr val = Selector\<lparr>attrName := Some [val]\<rparr>"

definition builder_pseudoClass :: "string \<Rightarrow> selector" where
  "builder_pseudoClass val = Selector\<lparr>pseudoClassName := Some [val]\<rparr>"

definition builder_pseudoElement :: "string \<Rightarrow> selector" where
  "builder_pseudoElement val = Selector\<lparr>pseudoElementName := Some val\<rparr>"

text \<open>
  A chained expression \<open>e.m(v)\<close>: when evaluating \<open>e\<close> threw, the expression throws the
  same string; otherwise \<open>m\<close> runs on the object \<open>e\<close> denotes.
\<close>

definition then_call :: "error + selector \<Rightarrow> (selector \<Rightarrow> outcome) \<Rightarrow> error + selector" where
  "then_call r m =
     (case r of
        Inl e \<Rightarrow> Inl e
      | Inr this \<Rightarrow> (case m this of (Some e, this') \<Rightarrow> Inl e | (None, this') \<Rightarrow> Inr this'))"

text \<open>
  What \<open>combine\<close> accepts: anything with a \<open>stringify\<close> method, a selector or a
  \<open>PropertyGroup\<close>, whose \<open>stringify\<close> returns its \<open>data\<close>.
\<close>

datatype renderable = Fragment selector | PropertyGroup string

fun stringify_unit :: "renderable \<Rightarrow> string" where
  "stringify_unit (Fragment this) = stringify this"
| "stringify_unit (PropertyGroup data) = data"

definition combine :: "renderable \<Rightarrow> string \<Rightarrow> renderable \<Rightarrow> renderable" where
  "combine selector1 combinator selector2 =
     PropertyGroup (stringify_unit selector1 @ '' '' @ combinator @ '' '' @ stringify_unit selector2)"

subsection \<open>The vocabulary of the specification\<close>

text \<open>
  The six categories in their fixed order, the builder method of each category, the facade
  entry point of each category, and the two readings of "the field of this category is
  set": the property has been assigned (\<open>is_set\<close>), and the property is truthy, which is
  what the code tests (\<open>holds\<close>).
\<close>

datatype category = CElement | CId | CClass | CAttr | CPseudoClass | CPseudoElement

fun rank :: "category \<Rightarrow> nat" where
  "rank CElement = 0"
| "rank CId = 1"
| "rank CClass = 2"
| "rank CAttr = 3"
| "rank CPseudoClass = 4"
| "rank CPseudoElement = 5"

fun once_only :: "category \<Rightarrow> bool" where
  "once_only CElement = True"
| "once_only CId = True"
| "once_only CClass = False"
| "once_only CAttr = False"
| "once_only CPseudoClass = False"
| "once_only CPseudoElement = True"

fun invoke :: "category \<Rightarrow> string \<Rightarrow> selector \<Rightarrow> outcome" where
  "invoke CElement = sel_element"
| "invoke CId = sel_id"
| "invoke CClass = sel_class"
| "invoke CAttr = sel_attr"
| "invoke CPseudoClass = sel_pseudoClass"
| "invoke CPseudoElement = sel_pseudoElement"

fun create :: "category \<Rightarrow> string \<Rightarrow> selector" where
  "create CElement = builder_element"
| "create CId = builder_id"
| "create CClass = builder_class"
| "create CAttr = builder_attr"
| "create CPseudoClass = builder_pseudoClass"
| "create CPseudoElement = builder_pseudoElement"

fun is_set :: "category \<Rightarrow> selector \<Rightarrow> bool" where
  "is_set CElement f = (elementName f \<noteq> None)"
| "is_set CId f = (idName f \<noteq> None)"
| "is_set CClass f = (className f \<noteq> None)"
| "is_set CAttr f = (attrName f \<noteq> None)"
| "is_set CPseudoClass f = (pseudoClassName f \<noteq> None)"
| "is_set CPseudoElement f = (pseudoElementName f \<noteq> None)"

fun holds :: "category \<Rightarrow> selector \<Rightarrow> bool" where
  "holds CElement f = truthy_str (elementName f)"
| "holds CId f = truthy_str (idName f)"
| "holds CClass f = truthy_arr (className f)"
| "holds CAttr f = truthy_arr (attrName f)"
| "holds CPseudoClass f = truthy_arr (pseudoClassName f)"
| "holds CPseudoElement f = truthy_str (pseudoElementName f)"

text \<open>
  The fragments built through the facade: an entry point creates one, and every method
  call that returns gives one.
\<close>

inductive built :: "selector \<Rightarrow> bool" where
  built_create: "built (create c v)"
| built_invoke: "built f \<Longrightarrow> invoke c v f = (None, f') \<Longrightarrow> built f'"

text \<open>
  The rendering as the specification words it: the element token if set, \<open>#\<close> and the id
  if set, \<open>.\<close> and the classes joined by \<open>.\<close> if any, \<open>[\<close>, the attributes joined by
  \<open>,\<close> and \<open>]\<close> if any, \<open>:\<close> and the pseudo-classes joined by \<open>:\<close> if any, \<open>::\<close> and
  the pseudo-element if set.
\<close>

definition tokens :: "string list option \<Rightarrow> string list" where
  "tokens v = (case v of None \<Rightarrow> [] | Some a \<Rightarrow> a)"

definition render_spec :: "selector \<Rightarrow> string" where
  "render_spec f =
     (case elementName f of None \<Rightarrow> [] | Some e \<Rightarrow> e) @
     (case idName f of None \<Rightarrow> [] | Some i \<Rightarrow> ''#'' @ i) @
     (if tokens (className f) = [] then [] else ''.'' @ join ''.'' (tokens (className f))) @
     (if tokens (attrName f) = [] then [] else ''['' @ join '','' (tokens (attrName f)) @ '']'') @
     (if tokens (pseudoClassName f) = [] then []
      else '':'' @ join '':'' (tokens (pseudoClassName f))) @
     (case pseudoElementName f of None \<Rightarrow> [] | Some p \<Rightarrow> ''::'' @ p)"

section \<open>The brace expander of src/task/10-katas-1-tasks.js\<close>

text \<open>
  Strings are sequences of code units; the expander only compares units and cuts at
  indices. \<open>s[x]\<close> is \<open>undefined\<close> beyond the end of \<open>s\<close>, which is \<open>None\<close> here.
\<close>

definition charAt :: "string \<Rightarrow> nat \<Rightarrow> char option" where
  "charAt s x = (if x < length s then Some (s ! x) else None)"

text \<open>
  \<open>String.prototype.substring\<close>: both indices are clamped to the length, and swapped
  when the first is the larger one.
\<close>

definition substring :: "string \<Rightarrow> nat \<Rightarrow> nat \<Rightarrow> string" where
  "substring s start fin =
     (let a = min start (length s); b = min fin (length s)
      in take (max a b - min a b) (drop (min a b) s))"

text \<open>\<open>String.prototype.split\<close> with a one-unit separator: the empty string gives \<open>['']\<close>.\<close>

fun split_str :: "char \<Rightarrow> string \<Rightarrow> string list" where
  "split_str sep [] = [[]]"
| "split_str sep (c # cs) =
     (if c = sep then [] # split_str sep cs
      else (case split_str sep cs of [] \<Rightarrow> [[c]] | p # ps \<Rightarrow> (c # p) # ps))"

text \<open>\<open>String.prototype.indexOf\<close> with a string argument: the first position of a match.\<close>

fun indexOf_str :: "string \<Rightarrow> string \<Rightarrow> nat option" where
  "indexOf_str [] pat = (if pat = [] then Some 0 else None)"
| "indexOf_str (c # cs) pat =
     (if take (length pat) (c # cs) = pat then Some 0
      else map_option Suc (indexOf_str cs pat))"

text \<open>
  \<open>String.prototype.replace\<close> with a string pattern and a string replacement replaces
  the first match, and expands in the replacement the patterns \<open>$$\<close>, \<open>$&\<close> (the match),
  \<open>$`\<close> (the text before the match) and \<open>$'\<close> (the text after it). A string pattern has
  no capture group, so \<open>$1\<close> and \<open>$<name>\<close> stay as they are. A string without a match
  is returned unchanged.
\<close>

fun getSubstitution :: "string \<Rightarrow> string \<Rightarrow> string \<Rightarrow> string \<Rightarrow> string" where
  "getSubstitution matched preceding following [] = []"
| "getSubstitution matched preceding following [c] = [c]"
| "getSubstitution matched preceding following (c # d # r) =
     (if c = CHR ''$'' \<and> d = CHR ''$''
        then CHR ''$'' # getSubstitution matched preceding following r
      else if c = CHR ''$'' \<and> d = CHR ''&''
        then matched @ getSubstitution matched preceding following r
      else if c = CHR ''$'' \<and> d = CHR 0x60
        then preceding @ getSubstitution matched preceding following r
      else if c = CHR ''$'' \<and> d = CHR 0x27
        then following @ getSubstitution matched preceding following r
      else c # getSubstitution matched preceding following (d # r))"

definition replace :: "string \<Rightarrow> string \<Rightarrow> string \<Rightarrow> string" where
  "replace s pat repl =
     (case indexOf_str s pat of
        None \<Rightarrow> s
      | Some pos \<Rightarrow>
          (let preceding = take pos s; following = drop (pos + length pat) s
           in preceding @ getSubstitution pat preceding following repl @ following))"

text \<open>
  The inner function \<open>parse\<close>, called with \<open>myArr\<close> holding \<open>first\<close> followed by
  \<open>rest\<close>: every alternative of \<open>str\<close> replaces the group in \<open>first\<close>, \<open>first\<close> is
  shifted out, and each result is pushed unless \<open>myArr\<close> already has it.
\<close>

definition parse :: "string \<Rightarrow> string list \<Rightarrow> string \<Rightarrow> string list" where
  "parse first rest str =
     (let arr = split_str CHR '','' str;
          completed = map (\<lambda>x. replace first (''{'' @ str @ ''}'') x) arr
      in fold (\<lambda>x myArr. if x \<in> set myArr then myArr else myArr @ [x]) completed rest)"

text \<open>
  The \<open>for\<close> loop of \<open>expandBraces\<close>, one call for each test of its condition, on the
  variables \<open>myArr\<close>, \<open>left\<close> and \<open>x\<close>. Reading \<open>myArr[0].indexOf\<close> on an empty array
  throws a TypeError. After \<open>parse\<close> the body sets \<open>x = 0\<close> and the loop's \<open>x++\<close> makes
  it 1; \<open>left\<close> keeps its value. A loop that never ends is \<open>None\<close>.
\<close>

datatype js_error = TypeError

partial_function (option) expand_loop ::
  "string list \<Rightarrow> nat \<Rightarrow> nat \<Rightarrow> (js_error + string list) option" where
  "expand_loop myArr left x =
     (case myArr of
        [] \<Rightarrow> Some (Inl TypeError)
      | first # rest \<Rightarrow>
          if CHR ''{'' \<notin> set first then Some (Inr myArr)
          else
            (let left' = (if charAt first x = Some CHR ''{'' then x else left) in
             if charAt first x = Some CHR ''}''
             then expand_loop (parse first rest (substring first (Suc left') x)) left' 1
             else expand_loop myArr left' (Suc x)))"

declare expand_loop.simps [code]

text \<open>
  The generator runs the loop at its first \<open>next()\<close> and then yields the elements of
  \<open>myArr\<close> in order: the yielded sequence is the final \<open>myArr\<close>.
\<close>

definition expandBraces :: "string \<Rightarrow> (js_error + string list) option" where
  "expandBraces str = expand_loop [str] 0 0"

text \<open>
  The states in which the loop runs on the input \<open>{{a,b},c}\<close> from its second call of
  \<open>parse\<close> on.
\<close>

definition stuck :: "string list \<Rightarrow> nat \<Rightarrow> nat \<Rightarrow> bool" where
  "stuck myArr left x \<longleftrightarrow>
     (myArr = [''{a,c}'', ''{b,c}''] \<or> myArr = [''{b,c}'', ''{a,c}''])
     \<and> left = 1 \<and> (x = 1 \<or> x = 2 \<or> x = 3 \<or> x = 4)"

section \<open>Properties of the selector builder\<close>

lemmas sel_defs = sel_element_def sel_id_def sel_class_def sel_attr_def sel_pseudoClass_def
  sel_pseudoElement_def

lemmas builder_defs = builder_element_def builder_id_def builder_class_def builder_attr_def
  builder_pseudoClass_def builder_pseudoElement_def Selector_def

lemmas truthy_defs = truthy_str_def truthy_arr_def

subsection \<open>Rendering\<close>

lemma built_arrays_nonempty:
  "built f \<Longrightarrow> className f \<noteq> Some [] \<and> attrName f \<noteq> Some [] \<and> pseudoClassName f \<noteq> Some []"
proof (induction rule: built.induct)
  case (built_create c v)
  show ?case by (cases c) (simp_all add: builder_defs)
next
  case (built_invoke f c v f')
  then show ?case
    by (cases c) (auto simp: sel_defs split: if_splits option.splits)
qed

lemma part_str_element: "part_str v (\<lambda>e. e) = (case v of None \<Rightarrow> [] | Some e \<Rightarrow> e)"
  by (simp add: part_str_def split: option.splits)

lemma part_str_set:
  "v \<noteq> Some [] \<Longrightarrow> part_str v g = (case v of None \<Rightarrow> [] | Some s \<Rightarrow> g s)"
  by (simp add: part_str_def split: option.splits)

lemma part_arr_any:
  "v \<noteq> Some [] \<Longrightarrow> part_arr v g = (if tokens v = [] then [] else g (tokens v))"
  by (simp add: part_arr_def tokens_def split: option.splits)

lemma stringify_is_render_spec:
  assumes "className f \<noteq> Some []" "attrName f \<noteq> Some []" "pseudoClassName f \<noteq> Some []"
    and "idName f \<noteq> Some []" "pseudoElementName f \<noteq> Some []"
  shows "stringify f = render_spec f"
  unfolding stringify_def render_spec_def
  by (simp only: part_str_element part_str_set [OF assms(4)] part_str_set [OF assms(5)]
      part_arr_any [OF assms(1)] part_arr_any [OF assms(2)] part_arr_any [OF assms(3)])

text \<open>
  Claim C1, as stated: for every fragment built through the facade, \<open>stringify\<close> is the
  rendering of the specification. It fails for an id that is the empty string: the id is
  set, the specification renders \<open>#\<close>, and \<open>stringify\<close>, which tests the property for
  truthiness, renders nothing.
\<close>

theorem stringify_counterexample:
  "built (create CId []) \<and> stringify (create CId []) = [] \<and> render_spec (create CId []) = ''#''"
  using built_create [of CId "[]"]
  by (simp add: stringify_def render_spec_def part_str_def part_arr_def tokens_def builder_defs)

text \<open>
  Claim C1, amended: for every fragment built through the facade whose id and
  pseudo-element are not the empty string, \<open>stringify\<close> returns the concatenation, in the
  fixed category order, of the element token if set, \<open>#\<close> and the id if set, \<open>.\<close> and
  the classes joined by \<open>.\<close> if any, \<open>[\<close>, the attributes joined by \<open>,\<close> and \<open>]\<close> if
  any, \<open>:\<close> and the pseudo-classes joined by \<open>:\<close> if any, \<open>::\<close> and the pseudo-element if
  set; and the two chains of the specification render as \<open>a[href$=".png"]:focus\<close> and
  \<open>#main.container.editable\<close>.
\<close>

theorem stringify_categories:
  \<open>(built f \<longrightarrow> idName f \<noteq> Some [] \<longrightarrow> pseudoElementName f \<noteq> Some []
      \<longrightarrow> stringify f = render_spec f)
   \<and> map_sum id stringify
        (then_call (then_call (Inr (builder_element ''a'')) (sel_attr ''href$=".png"''))
           (sel_pseudoClass ''focus''))
       = Inr ''a[href$=".png"]:focus''
   \<and> map_sum id stringify
        (then_call (then_call (Inr (builder_id ''main'')) (sel_class ''container''))
           (sel_class ''editable''))
       = Inr ''#main.container.editable''\<close>
proof -
  have gen: "built f \<longrightarrow> idName f \<noteq> Some [] \<longrightarrow> pseudoElementName f \<noteq> Some []
      \<longrightarrow> stringify f = render_spec f"
    using built_arrays_nonempty [of f] stringify_is_render_spec [of f] by blast
  have ex1: \<open>map_sum id stringify
        (then_call (then_call (Inr (builder_element ''a'')) (sel_attr ''href$=".png"''))
           (sel_pseudoClass ''focus''))
       = Inr ''a[href$=".png"]:focus''\<close>
    by (simp add: then_call_def sel_defs builder_defs truthy_defs stringify_def part_str_def
        part_arr_def)
  have ex2: "map_sum id stringify
        (then_call (then_call (Inr (builder_id ''main'')) (sel_class ''container''))
           (sel_class ''editable''))
       = Inr ''#main.container.editable''"
    by (simp add: then_call_def sel_defs builder_defs truthy_defs stringify_def part_str_def
        part_arr_def)
  show ?thesis using gen ex1 ex2 by simp
qed

theorem stringify_categories_witness:
  "built (snd (sel_class ''container'' (builder_id ''main'')))
   \<and> idName (snd (sel_class ''container'' (builder_id ''main''))) \<noteq> Some []
   \<and> pseudoElementName (snd (sel_class ''container'' (builder_id ''main''))) \<noteq> Some []
   \<and> stringify (snd (sel_class ''container'' (builder_id ''main''))) = ''#main.container''
   \<and> render_spec (snd (sel_class ''container'' (builder_id ''main''))) = ''#main.container''"
proof -
  let ?f = "snd (sel_class ''container'' (builder_id ''main''))"
  have ok: "invoke CClass ''container'' (create CId ''main'') = (None, ?f)"
    by (simp add: sel_defs builder_defs truthy_defs)
  have b: "built ?f"
    using built_invoke [OF built_create ok] .
  have i: "idName ?f \<noteq> Some []" "pseudoElementName ?f \<noteq> Some []"
    by (simp_all add: sel_defs builder_defs truthy_defs)
  have s: "stringify ?f = ''#main.container''"
    by (simp add: sel_defs builder_defs truthy_defs stringify_def part_str_def part_arr_def)
  have "stringify ?f = render_spec ?f"
    using stringify_categories [of ?f] b i by blast
  with b i s show ?thesis by simp
qed

subsection \<open>Duplicate singletons\<close>

text \<open>
  Claim C2, as stated: calling \<open>element\<close>, \<open>id\<close> or \<open>pseudoElement\<close> when that field is
  already set raises the duplicate-singleton error. It fails when the field was set to the
  empty string: the guard tests truthiness, and the second call returns.
\<close>

theorem duplicate_singleton_counterexample:
  "once_only CElement \<and> is_set CElement (builder_element [])
   \<and> fst (invoke CElement ''div'' (builder_element [])) = None"
  by (simp add: sel_defs builder_defs truthy_defs)

text \<open>
  Claim C2, amended: for every fragment, calling \<open>element\<close>, \<open>id\<close> or \<open>pseudoElement\<close>
  when that same field already holds a non-empty token throws \<open>err_E\<close> at that call
  (calling \<open>element\<close> twice in a chain throws it), and a call that returns has set the
  field to its argument on the same object, every other field as it was.
\<close>

theorem duplicate_singleton_raises:
  "(once_only c \<longrightarrow> holds c f \<longrightarrow> invoke c v f = (Some err_E, f))
   \<and> (fst (sel_element v f) = None \<longrightarrow> snd (sel_element v f) = f\<lparr>elementName := Some v\<rparr>)
   \<and> (fst (sel_id v f) = None \<longrightarrow> snd (sel_id v f) = f\<lparr>idName := Some v\<rparr>)
   \<and> (fst (sel_pseudoElement v f) = None
        \<longrightarrow> snd (sel_pseudoElement v f) = f\<lparr>pseudoElementName := Some v\<rparr>)
   \<and> then_call (Inr (builder_element ''table'')) (sel_element ''div'') = Inl err_E"
proof -
  have dup: "once_only c \<longrightarrow> holds c f \<longrightarrow> invoke c v f = (Some err_E, f)"
    by (cases c) (simp_all add: sel_defs)
  have twice: "then_call (Inr (builder_element ''table'')) (sel_element ''div'') = Inl err_E"
    by (simp add: then_call_def sel_element_def builder_defs truthy_defs)
  show ?thesis using dup twice by (simp add: sel_defs)
qed

theorem duplicate_singleton_raises_witness:
  "once_only CId \<and> holds CId (builder_id ''main'')
   \<and> invoke CId ''data'' (builder_id ''main'') = (Some err_E, builder_id ''main'')
   \<and> fst (sel_id ''main'' (builder_element ''div'')) = None
   \<and> snd (sel_id ''main'' (builder_element ''div''))
       = (builder_element ''div'')\<lparr>idName := Some ''main''\<rparr>"
  using duplicate_singleton_raises [of CId "builder_id ''main''" "''data''"]
    duplicate_singleton_raises [of CId "builder_element ''div''" "''main''"]
  by (simp add: sel_defs builder_defs truthy_defs)

subsection \<open>Category order\<close>

text \<open>
  Claim C3, as stated: a method of an earlier category called after a field of a strictly
  later category is set raises the out-of-order error. It fails twice: \<open>element\<close> called
  on a fragment with an element and an id throws \<open>err_E\<close>, since the duplicate test
  comes first; and \<open>class\<close> called after a pseudo-element set to the empty string
  returns.
\<close>

theorem out_of_order_counterexample:
  "rank CElement < rank CId
   \<and> fst (sel_id ''main'' (builder_element ''div'')) = None
   \<and> is_set CId (snd (sel_id ''main'' (builder_element ''div'')))
   \<and> fst (invoke CElement ''p'' (snd (sel_id ''main'' (builder_element ''div'')))) = Some err_E
   \<and> rank CClass < rank CPseudoElement
   \<and> is_set CPseudoElement (builder_pseudoElement [])
   \<and> fst (invoke CClass ''main'' (builder_pseudoElement [])) = None"
  by (simp add: sel_defs builder_defs truthy_defs)

text \<open>
  Claim C3, amended: for every fragment, a method of an earlier category called while a
  field of a strictly later category is truthy (a non-empty token, or any list) throws at
  that call and leaves the fragment as it was: \<open>err_S\<close>, except that \<open>element\<close> and
  \<open>id\<close> throw \<open>err_E\<close> when their own field already holds a non-empty token. In
  particular \<open>id\<close> after \<open>class\<close> throws \<open>err_S\<close>.
\<close>

theorem out_of_order_raises:
  "(rank m < rank c \<longrightarrow> holds c f \<longrightarrow>
      invoke m v f = (Some (if once_only m \<and> holds m f then err_E else err_S), f))
   \<and> then_call (Inr (builder_class ''main'')) (sel_id ''id'') = Inl err_S"
proof -
  have ord: "rank m < rank c \<longrightarrow> holds c f \<longrightarrow>
      invoke m v f = (Some (if once_only m \<and> holds m f then err_E else err_S), f)"
    by (cases m; cases c) (simp_all add: sel_defs)
  have ex: "then_call (Inr (builder_class ''main'')) (sel_id ''id'') = Inl err_S"
    by (simp add: then_call_def sel_id_def builder_defs truthy_defs)
  show ?thesis using ord ex by simp
qed

theorem out_of_order_raises_witness:
  "rank CId < rank CClass \<and> holds CClass (builder_class ''main'')
   \<and> invoke CId ''id'' (builder_class ''main'') = (Some err_S, builder_class ''main'')"
  using out_of_order_raises [of CId CClass "builder_class ''main''" "''id''"]
  by (simp add: builder_defs truthy_defs)

subsection \<open>Combination\<close>

text \<open>
  Claim C8: for all renderable units \<open>a\<close> and \<open>b\<close> and every combinator token,
  \<open>combine(a, token, b).stringify()\<close> is the string of \<open>a\<close>, a space, the token, a space
  and the string of \<open>b\<close>; the result is a renderable unit again, so a nested combination
  is padded in the same way at each combinator; and
  \<open>combine(element('div').id('main'), '+', element('table').id('data'))\<close> renders as
  \<open>div#main + table#data\<close>.
\<close>

theorem combine_stringify:
  "stringify_unit (combine a t b) = stringify_unit a @ '' '' @ t @ '' '' @ stringify_unit b
   \<and> stringify_unit (combine (combine a t b) u c)
       = stringify_unit a @ '' '' @ t @ '' '' @ stringify_unit b @ '' '' @ u @ '' ''
         @ stringify_unit c
   \<and> stringify_unit (combine a t (combine b u c))
       = stringify_unit a @ '' '' @ t @ '' '' @ stringify_unit b @ '' '' @ u @ '' ''
         @ stringify_unit c
   \<and> fst (sel_id ''main'' (builder_element ''div'')) = None
   \<and> fst (sel_id ''data'' (builder_element ''table'')) = None
   \<and> stringify_unit
        (combine (Fragment (snd (sel_id ''main'' (builder_element ''div'')))) ''+''
                 (Fragment (snd (sel_id ''data'' (builder_element ''table'')))))
       = ''div#main + table#data''"
  by (simp add: combine_def sel_defs builder_defs truthy_defs stringify_def part_str_def
      part_arr_def)

subsection \<open>A throwing call changes nothing\<close>

text \<open>
  Claim C10: every builder method (\<open>element\<close>, \<open>id\<close>, \<open>class\<close>, \<open>attr\<close>,
  \<open>pseudoClass\<close>, \<open>pseudoElement\<close>) that throws leaves every field of the fragment
  exactly as it was before the call.
\<close>

theorem throw_leaves_fields:
  "fst (invoke c v f) = Some e \<Longrightarrow> snd (invoke c v f) = f"
  by (cases c) (auto simp: sel_defs split: if_splits option.splits)

theorem throw_leaves_fields_witness:
  "fst (invoke CElement ''div'' (builder_element ''table'')) = Some err_E
   \<and> snd (invoke CElement ''div'' (builder_element ''table'')) = builder_element ''table''"
  using throw_leaves_fields [of CElement "''div''" "builder_element ''table''" err_E]
  by (simp add: sel_defs builder_defs truthy_str_def)

section \<open>Properties of the brace expander\<close>

subsection \<open>Induction over the runs of the loop that end\<close>

lemma expand_loop_rule [consumes 1, case_names step]:
  assumes run: "expand_loop myArr left x = Some r"
    and step: "\<And>loop myArr left x r.
       (\<And>myArr left x r. loop myArr left x = Some r \<Longrightarrow> P myArr left x r) \<Longrightarrow>
       (case myArr of
          [] \<Rightarrow> Some (Inl TypeError)
        | first # rest \<Rightarrow>
            if CHR ''{'' \<notin> set first then Some (Inr myArr)
            else
              (let left' = (if charAt first x = Some CHR ''{'' then x else left) in
               if charAt first x = Some CHR ''}''
               then loop (parse first rest (substring first (Suc left') x)) left' 1
               else loop myArr left' (Suc x))) = Some r \<Longrightarrow>
       P myArr left x r"
  shows "P myArr left x r"
  by (rule expand_loop.raw_induct
      [where xa = "((myArr, left), x)" and P = P, unfolded prod.case, OF step run])

subsection \<open>One pass of the loop\<close>

lemma scan_pre:
  assumes "CHR ''}'' \<notin> set pre"
  shows "x \<le> length pre \<Longrightarrow>
    expand_loop ((pre @ CHR ''{'' # body @ CHR ''}'' # post) # rest) left x
    = expand_loop ((pre @ CHR ''{'' # body @ CHR ''}'' # post) # rest) (length pre)
        (Suc (length pre))"
proof (induction "length pre - x" arbitrary: x left)
  case 0
  then have x: "x = length pre" by simp
  show ?case
    by (subst expand_loop.simps) (simp add: x charAt_def)
next
  case (Suc n)
  then have lt: "x < length pre" and n: "n = length pre - Suc x" by simp_all
  from lt assms have c: "pre ! x \<noteq> CHR ''}''"
    using nth_mem by metis
  have "expand_loop ((pre @ CHR ''{'' # body @ CHR ''}'' # post) # rest) left x
        = expand_loop ((pre @ CHR ''{'' # body @ CHR ''}'' # post) # rest)
            (if pre ! x = CHR ''{'' then x else left) (Suc x)"
    using lt c by (subst expand_loop.simps) (simp add: charAt_def nth_append)
  also have "\<dots> = expand_loop ((pre @ CHR ''{'' # body @ CHR ''}'' # post) # rest)
      (length pre) (Suc (length pre))"
    using Suc.hyps(1) [OF n] lt by simp
  finally show ?case .
qed

lemma substring_group:
  "substring (pre @ CHR ''{'' # body @ CHR ''}'' # post) (Suc (length pre))
     (Suc (length pre) + length body) = body"
  by (simp add: substring_def Let_def min_def max_def)

lemma scan_body:
  assumes "CHR ''{'' \<notin> set body" "CHR ''}'' \<notin> set body"
  shows "k \<le> length body \<Longrightarrow>
    expand_loop ((pre @ CHR ''{'' # body @ CHR ''}'' # post) # rest) (length pre)
      (Suc (length pre) + k)
    = expand_loop (parse (pre @ CHR ''{'' # body @ CHR ''}'' # post) rest body) (length pre) 1"
proof (induction "length body - k" arbitrary: k)
  case 0
  then have k: "k = length body" by simp
  have at: "charAt (pre @ CHR ''{'' # body @ CHR ''}'' # post) (Suc (length pre) + length body)
            = Some CHR ''}''"
    by (simp add: charAt_def nth_append)
  show ?case
    unfolding k
    by (subst expand_loop.simps) (simp add: at substring_group del: add_Suc)
next
  case (Suc n)
  then have lt: "k < length body" and n: "n = length body - Suc k" by simp_all
  from lt assms have c: "body ! k \<noteq> CHR ''}''" "body ! k \<noteq> CHR ''{''"
    using nth_mem by metis+
  have at: "charAt (pre @ CHR ''{'' # body @ CHR ''}'' # post) (Suc (length pre) + k)
            = Some (body ! k)"
    using lt by (simp add: charAt_def nth_append)
  have "expand_loop ((pre @ CHR ''{'' # body @ CHR ''}'' # post) # rest) (length pre)
          (Suc (length pre) + k)
        = expand_loop ((pre @ CHR ''{'' # body @ CHR ''}'' # post) # rest) (length pre)
          (Suc (length pre) + Suc k)"
    using c by (subst expand_loop.simps) (simp add: at del: add_Suc)
  also have "\<dots> = expand_loop (parse (pre @ CHR ''{'' # body @ CHR ''}'' # post) rest body)
      (length pre) 1"
    using Suc.hyps(1) [OF n] lt by simp
  finally show ?case .
qed

lemma getSubstitution_plain:
  "CHR ''$'' \<notin> set repl \<Longrightarrow> getSubstitution matched preceding following repl = repl"
  by (induction matched preceding following repl rule: getSubstitution.induct) auto

lemma take_before_group:
  assumes "n \<le> length pre + Suc (length body)"
  shows "set (take n (pre @ CHR ''{'' # body @ CHR ''}'' # post))
         \<subseteq> set pre \<union> insert CHR ''{'' (set body)"
proof -
  have "take (n - length pre) (CHR ''{'' # body @ CHR ''}'' # post)
        = take (n - length pre) (CHR ''{'' # body)"
    using assms by (cases "n - length pre") simp_all
  then have "take n (pre @ CHR ''{'' # body @ CHR ''}'' # post)
        = take n (pre @ CHR ''{'' # body)"
    by simp
  then show ?thesis
    using set_take_subset [of n "pre @ CHR ''{'' # body"] by auto
qed

lemma indexOf_skip:
  "take (length pat) (c # cs) \<noteq> pat \<Longrightarrow>
   indexOf_str (c # cs) pat = map_option Suc (indexOf_str cs pat)"
  by simp

lemma indexOf_group:
  assumes "CHR ''}'' \<notin> set pre" "CHR ''}'' \<notin> set body"
  shows "indexOf_str (pre @ CHR ''{'' # body @ CHR ''}'' # post) (CHR ''{'' # body @ ''}'')
         = Some (length pre)"
  using assms(1)
proof (induction pre)
  case Nil
  show ?case by simp
next
  case (Cons c pre)
  let ?pat = "CHR ''{'' # body @ ''}''"
  let ?t = "pre @ CHR ''{'' # body @ CHR ''}'' # post"
  have sub: "set (take (length ?pat) ((c # pre) @ CHR ''{'' # body @ CHR ''}'' # post))
      \<subseteq> set (c # pre) \<union> insert CHR ''{'' (set body)"
    by (rule take_before_group) simp
  have out: "CHR ''}'' \<notin> set (c # pre) \<union> insert CHR ''{'' (set body)"
    using Cons.prems assms(2) by simp
  have ne: "take (length ?pat) (c # ?t) \<noteq> ?pat"
  proof
    assume "take (length ?pat) (c # ?t) = ?pat"
    then have "set ?pat \<subseteq> set (c # pre) \<union> insert CHR ''{'' (set body)"
      using sub by (simp only: append_Cons)
    moreover have "CHR ''}'' \<in> set ?pat" by simp
    ultimately show False using out by blast
  qed
  from Cons.prems have "CHR ''}'' \<notin> set pre" by simp
  then have ih: "indexOf_str ?t ?pat = Some (length pre)" by (rule Cons.IH)
  have "indexOf_str (c # ?t) ?pat = Some (Suc (length pre))"
    by (simp only: indexOf_skip [OF ne] ih option.map)
  then show ?case by (simp only: append_Cons list.size) simp
qed

lemma replace_group:
  assumes "CHR ''}'' \<notin> set pre" "CHR ''}'' \<notin> set body" "CHR ''$'' \<notin> set alt"
  shows "replace (pre @ CHR ''{'' # body @ CHR ''}'' # post) (''{'' @ body @ ''}'') alt
         = pre @ alt @ post"
  using indexOf_group [OF assms(1,2), of post] getSubstitution_plain [OF assms(3)]
  by (simp add: replace_def)

lemma split_str_pieces: "p \<in> set (split_str sep s) \<Longrightarrow> set p \<subseteq> set s"
  by (induction s arbitrary: p) (fastforce split: if_splits list.splits)+

lemma parse_group:
  assumes "CHR ''}'' \<notin> set pre" "CHR ''}'' \<notin> set body" "CHR ''$'' \<notin> set body"
  shows "parse (pre @ CHR ''{'' # body @ CHR ''}'' # post) rest body
    = fold (\<lambda>x myArr. if x \<in> set myArr then myArr else myArr @ [x])
        (map (\<lambda>alt. pre @ alt @ post) (split_str CHR '','' body)) rest"
proof -
  have eq: "map (\<lambda>x. replace (pre @ CHR ''{'' # body @ CHR ''}'' # post) (''{'' @ body @ ''}'') x)
          (split_str CHR '','' body)
        = map (\<lambda>alt. pre @ alt @ post) (split_str CHR '','' body)"
  proof (rule map_cong [OF refl])
    fix alt assume "alt \<in> set (split_str CHR '','' body)"
    then have "CHR ''$'' \<notin> set alt" using split_str_pieces assms(3) by blast
    then show "replace (pre @ CHR ''{'' # body @ CHR ''}'' # post) (''{'' @ body @ ''}'') alt
        = pre @ alt @ post"
      by (rule replace_group [OF assms(1,2)])
  qed
  show ?thesis by (simp only: parse_def Let_def eq)
qed

text \<open>
  One pass, from the index \<open>x\<close> where the scan starts to the first \<open>}\<close>: when the
  first string of \<open>myArr\<close> is \<open>pre{body}post\<close>, \<open>pre\<close> holds no \<open>}\<close>, \<open>body\<close> holds
  no brace and no \<open>$\<close>, and the scan starts at or before the \<open>{\<close> of the group, the loop
  replaces the first string by one string for each alternative of \<open>body\<close>, pushed unless
  already there, and resumes at index 1 with \<open>left\<close> at the \<open>{\<close> of the group. The scan
  starts at 0 on the input and at 1 after every \<open>parse\<close>: a group that opens at index 0 of
  a later first string is outside this lemma.
\<close>

lemma pass_pairs_last_open_with_next_close:
  assumes "x \<le> length pre" "CHR ''}'' \<notin> set pre"
    and "CHR ''{'' \<notin> set body" "CHR ''}'' \<notin> set body" "CHR ''$'' \<notin> set body"
  shows "expand_loop ((pre @ ''{'' @ body @ ''}'' @ post) # rest) left x
    = expand_loop
        (fold (\<lambda>x myArr. if x \<in> set myArr then myArr else myArr @ [x])
           (map (\<lambda>alt. pre @ alt @ post) (split_str CHR '','' body)) rest)
        (length pre) 1"
  using scan_pre [OF assms(2,1), of body post rest left]
    scan_body [OF assms(3,4), of 0 pre post rest]
    parse_group [OF assms(2,4,5), of post rest]
  by simp

subsection \<open>Inputs without braces\<close>

text \<open>
  Claim C4: for every input string that contains no brace character, \<open>expandBraces\<close>
  yields exactly the one-element sequence holding the input unchanged.
\<close>

theorem no_braces_unchanged:
  "CHR ''{'' \<notin> set input \<Longrightarrow> CHR ''}'' \<notin> set input \<Longrightarrow>
   expandBraces input = Some (Inr [input])"
  unfolding expandBraces_def by (subst expand_loop.simps) simp

theorem no_braces_unchanged_witness:
  "CHR ''{'' \<notin> set ''nothing to do'' \<and> CHR ''}'' \<notin> set ''nothing to do''
   \<and> expandBraces ''nothing to do'' = Some (Inr [''nothing to do''])"
  using no_braces_unchanged [of "''nothing to do''"] by simp

subsection \<open>The documented expansions\<close>

text \<open>
  Claim C5 says that adjacent groups expand to the cross-product of their alternatives.
  The two documented inputs do: \<open>~/{Downloads,Pictures}/*.{jpg,gif,png}\<close> yields, as a
  set, exactly the six strings of the documentation (here in the order in which they are
  yielded), and \<open>{a,b}{c,d}\<close> the four combinations. The input \<open>{a,}{b,c}\<close> does
  not: its cross-product is \<open>ab\<close>, \<open>ac\<close>, \<open>b\<close>, \<open>c\<close>, and the code yields
  \<open>{b,c}\<close> in place of \<open>b\<close> and \<open>c\<close>.
\<close>

theorem adjacent_groups_expansion:
  "expandBraces ''~/{Downloads,Pictures}/*.{jpg,gif,png}'' =
     Some (Inr [''~/Downloads/*.jpg'', ''~/Downloads/*.gif'', ''~/Downloads/*.png'',
                ''~/Pictures/*.jpg'', ''~/Pictures/*.gif'', ''~/Pictures/*.png''])
   \<and> map_option (map_sum id set) (expandBraces ''~/{Downloads,Pictures}/*.{jpg,gif,png}'') =
     Some (Inr {''~/Downloads/*.jpg'', ''~/Downloads/*.gif'', ''~/Downloads/*.png'',
                ''~/Pictures/*.jpg'', ''~/Pictures/*.gif'', ''~/Pictures/*.png''})
   \<and> expandBraces ''{a,b}{c,d}'' = Some (Inr [''ac'', ''ad'', ''bc'', ''bd''])
   \<and> expandBraces ''{a,}{b,c}'' = Some (Inr [''ab'', ''ac'', ''{b,c}''])
   \<and> map_option (map_sum id set) (expandBraces ''{a,}{b,c}'')
       \<noteq> Some (Inr {''ab'', ''ac'', ''b'', ''c''})"
proof -
  have paths: "expandBraces ''~/{Downloads,Pictures}/*.{jpg,gif,png}'' =
     Some (Inr [''~/Downloads/*.jpg'', ''~/Downloads/*.gif'', ''~/Downloads/*.png'',
                ''~/Pictures/*.jpg'', ''~/Pictures/*.gif'', ''~/Pictures/*.png''])"
    by code_simp
  have small: "expandBraces ''{a,b}{c,d}'' = Some (Inr [''ac'', ''ad'', ''bc'', ''bd''])"
    by code_simp
  have empty_alt: "expandBraces ''{a,}{b,c}'' = Some (Inr [''ab'', ''ac'', ''{b,c}''])"
    by code_simp
  have differ: "set [''ab'', ''ac'', ''{b,c}''] \<noteq> {''ab'', ''ac'', ''b'', ''c''}"
  proof
    assume "set [''ab'', ''ac'', ''{b,c}''] = {''ab'', ''ac'', ''b'', ''c''}"
    then have "''b'' \<in> set [''ab'', ''ac'', ''{b,c}'']" by simp
    then show False by simp
  qed
  show ?thesis unfolding paths small empty_alt using differ by simp
qed

subsection \<open>No duplicates\<close>

lemma fold_push_distinct:
  "distinct acc \<Longrightarrow>
   distinct (fold (\<lambda>x myArr. if x \<in> set myArr then myArr else myArr @ [x]) xs acc)"
  by (induction xs arbitrary: acc) simp_all

lemma fold_push_set:
  "set (fold (\<lambda>x myArr. if x \<in> set myArr then myArr else myArr @ [x]) xs acc)
   = set acc \<union> set xs"
  by (induction xs arbitrary: acc) auto

lemma split_str_nonempty: "split_str sep s \<noteq> []"
  by (induction s) (simp_all split: list.splits)

lemma parse_distinct: "distinct rest \<Longrightarrow> distinct (parse first rest str)"
  by (simp add: parse_def Let_def fold_push_distinct)

lemma parse_nonempty: "parse first rest str \<noteq> []"
proof -
  have "set (parse first rest str) \<noteq> {}"
    by (simp add: parse_def Let_def fold_push_set split_str_nonempty)
  then show ?thesis by auto
qed

lemma expand_loop_distinct:
  "expand_loop myArr left x = Some r \<Longrightarrow>
   myArr \<noteq> [] \<and> distinct myArr \<longrightarrow> (\<exists>ys. r = Inr ys \<and> ys \<noteq> [] \<and> distinct ys)"
proof (induction rule: expand_loop_rule)
  case (step loop myArr left x r)
  show ?case
  proof (cases myArr)
    case Nil
    then show ?thesis by simp
  next
    case (Cons first rest)
    show ?thesis
    proof (intro impI)
      assume inv: "myArr \<noteq> [] \<and> distinct myArr"
      then have dr: "distinct rest" using Cons by simp
      show "\<exists>ys. r = Inr ys \<and> ys \<noteq> [] \<and> distinct ys"
      proof (cases "CHR ''{'' \<in> set first")
        case False
        with step(2) Cons have "r = Inr myArr" by simp
        with inv show ?thesis by simp
      next
        case True
        let ?left = "if charAt first x = Some CHR ''{'' then x else left"
        show ?thesis
        proof (cases "charAt first x = Some CHR ''}''")
          case close: True
          with step(2) Cons True
          have "loop (parse first rest (substring first (Suc ?left) x)) ?left 1 = Some r"
            by (simp add: Let_def)
          from step(1) [OF this] parse_nonempty parse_distinct [OF dr]
          show ?thesis by blast
        next
          case other: False
          with step(2) Cons True have "loop myArr ?left (Suc x) = Some r"
            by (simp add: Let_def)
          from step(1) [OF this] inv show ?thesis by blast
        qed
      qed
    qed
  qed
qed

text \<open>
  Claim C9: for every input string, the sequence that \<open>expandBraces\<close> yields has no
  duplicate: a string reached by several expansions is yielded once. A run that ends also
  ends without a TypeError and yields at least one string.
\<close>

theorem yields_no_duplicates:
  "expandBraces input = Some r \<Longrightarrow> \<exists>ys. r = Inr ys \<and> ys \<noteq> [] \<and> distinct ys"
  unfolding expandBraces_def using expand_loop_distinct [of "[input]" 0 0 r] by simp

theorem yields_no_duplicates_witness:
  "expandBraces ''{a,a}'' = Some (Inr [''a'']) \<and> distinct [''a'']"
proof -
  have run: "expandBraces ''{a,a}'' = Some (Inr [''a''])" by code_simp
  from yields_no_duplicates [OF run] run show ?thesis by simp
qed

subsection \<open>Balanced inputs on which the loop goes wrong\<close>

lemma parse_stuck_a: "parse ''{a,c}'' [''{b,c}''] '',c'' = [''{b,c}'', ''{a,c}'']"
  by code_simp

lemma parse_stuck_b: "parse ''{b,c}'' [''{a,c}''] '',c'' = [''{a,c}'', ''{b,c}'']"
  by code_simp

lemma stuck_forever: "expand_loop myArr left x = Some r \<Longrightarrow> \<not> stuck myArr left x"
proof (induction rule: expand_loop_rule)
  case (step loop myArr left x r)
  show ?case
  proof
    assume s: "stuck myArr left x"
    then have l: "left = 1" by (simp add: stuck_def)
    from s consider
        (a) "myArr = [''{a,c}'', ''{b,c}'']" "x = 1 \<or> x = 2 \<or> x = 3"
      | (a4) "myArr = [''{a,c}'', ''{b,c}'']" "x = 4"
      | (b) "myArr = [''{b,c}'', ''{a,c}'']" "x = 1 \<or> x = 2 \<or> x = 3"
      | (b4) "myArr = [''{b,c}'', ''{a,c}'']" "x = 4"
      by (auto simp: stuck_def)
    then show False
    proof cases
      case a
      with step(2) l have "loop myArr 1 (Suc x) = Some r"
        by (auto simp: charAt_def)
      from step(1) [OF this] a show False by (auto simp: stuck_def)
    next
      case a4
      with step(2) l have "loop [''{b,c}'', ''{a,c}''] 1 1 = Some r"
        by (simp add: charAt_def substring_def parse_stuck_a)
      from step(1) [OF this] show False by (simp add: stuck_def)
    next
      case b
      with step(2) l have "loop myArr 1 (Suc x) = Some r"
        by (auto simp: charAt_def)
      from step(1) [OF this] b show False by (auto simp: stuck_def)
    next
      case b4
      with step(2) l have "loop [''{a,c}'', ''{b,c}''] 1 1 = Some r"
        by (simp add: charAt_def substring_def parse_stuck_b)
      from step(1) [OF this] show False by (simp add: stuck_def)
    qed
  qed
qed

lemma reaches_stuck:
  "expand_loop [''{{a,b},c}''] 0 0 = expand_loop [''{a,c}'', ''{b,c}''] 1 1"
proof -
  have "expand_loop [''{{a,b},c}''] 0 0 = expand_loop [''{{a,b},c}''] 0 1"
    by (subst expand_loop.simps) (simp add: charAt_def eval_nat_numeral)
  also have "\<dots> = expand_loop [''{{a,b},c}''] 1 2"
    by (subst expand_loop.simps) (simp add: charAt_def eval_nat_numeral)
  also have "\<dots> = expand_loop [''{{a,b},c}''] 1 3"
    by (subst expand_loop.simps) (simp add: charAt_def eval_nat_numeral)
  also have "\<dots> = expand_loop [''{{a,b},c}''] 1 4"
    by (subst expand_loop.simps) (simp add: charAt_def eval_nat_numeral)
  also have "\<dots> = expand_loop [''{{a,b},c}''] 1 5"
    by (subst expand_loop.simps) (simp add: charAt_def eval_nat_numeral)
  also have "\<dots> = expand_loop (parse ''{{a,b},c}'' [] (substring ''{{a,b},c}'' 2 5)) 1 1"
    by (subst expand_loop.simps) (simp add: charAt_def eval_nat_numeral)
  also have "parse ''{{a,b},c}'' [] (substring ''{{a,b},c}'' 2 5) = [''{a,c}'', ''{b,c}'']"
    by code_simp
  finally show ?thesis .
qed

lemma nested_at_start_never_returns: "expandBraces ''{{a,b},c}'' = None"
proof (cases "expandBraces ''{{a,b},c}''")
  case None
  then show ?thesis .
next
  case (Some r)
  then have "expand_loop [''{a,c}'', ''{b,c}''] 1 1 = Some r"
    by (simp add: expandBraces_def reaches_stuck)
  from stuck_forever [OF this] show ?thesis by (simp add: stuck_def)
qed

text \<open>
  Claim C6 says that nested groups are resolved from the inside out, the loop pairing the
  last \<open>{\<close> it has seen with the next \<open>}\<close>. The two documented inputs are:
  \<open>It{{em,alic}iz,erat}e{d,}, please.\<close> yields, as a set, exactly the six sentences of
  the documentation, and \<open>thumbnail.{png,jp{e,}g}\<close> exactly the three file names. The
  nested input \<open>{{a,b},c}\<close> is not: once the inner group is resolved, the outer group
  opens at index 0, where the loop does not look, and the generator never yields.
\<close>

theorem nested_groups_expansion:
  "expandBraces ''It{{em,alic}iz,erat}e{d,}, please.'' =
     Some (Inr [''Itemized, please.'', ''Itemize, please.'', ''Iterated, please.'',
                ''Iterate, please.'', ''Italicized, please.'', ''Italicize, please.''])
   \<and> map_option (map_sum id set) (expandBraces ''It{{em,alic}iz,erat}e{d,}, please.'') =
     Some (Inr {''Itemized, please.'', ''Itemize, please.'', ''Italicized, please.'',
                ''Italicize, please.'', ''Iterated, please.'', ''Iterate, please.''})
   \<and> expandBraces ''thumbnail.{png,jp{e,}g}'' =
     Some (Inr [''thumbnail.png'', ''thumbnail.jpeg'', ''thumbnail.jpg''])
   \<and> map_option (map_sum id set) (expandBraces ''thumbnail.{png,jp{e,}g}'') =
     Some (Inr {''thumbnail.png'', ''thumbnail.jpeg'', ''thumbnail.jpg''})
   \<and> expandBraces ''{{a,b},c}'' = None"
proof -
  have it: "expandBraces ''It{{em,alic}iz,erat}e{d,}, please.'' =
     Some (Inr [''Itemized, please.'', ''Itemize, please.'', ''Iterated, please.'',
                ''Iterate, please.'', ''Italicized, please.'', ''Italicize, please.''])"
    by code_simp
  have thumb: "expandBraces ''thumbnail.{png,jp{e,}g}'' =
     Some (Inr [''thumbnail.png'', ''thumbnail.jpeg'', ''thumbnail.jpg''])"
    by code_simp
  have sets: "set [''Itemized, please.'', ''Itemize, please.'', ''Iterated, please.'',
                ''Iterate, please.'', ''Italicized, please.'', ''Italicize, please.'']
     = {''Itemized, please.'', ''Itemize, please.'', ''Italicized, please.'',
                ''Italicize, please.'', ''Iterated, please.'', ''Iterate, please.''}"
    by (simp add: insert_commute)
  show ?thesis
    unfolding it thumb using sets nested_at_start_never_returns by simp
qed

text \<open>
  Claim C7 says that on every input whose braces are balanced the loop ends and every
  yielded string is free of braces. After \<open>parse\<close> the loop resumes at index 1 with the
  old \<open>left\<close>, so a group that opens at index 0 of the new first string is cut at the
  wrong place. On \<open>{{a,b},c}\<close> the loop then never ends: it alternates between
  \<open>{a,c}\<close> and \<open>{b,c}\<close> at the head of \<open>myArr\<close>. On \<open>{a,}{b,c}\<close> it ends and yields
  \<open>{b,c}\<close>.
\<close>

theorem balanced_input_goes_wrong:
  "expandBraces ''{{a,b},c}'' = None
   \<and> expandBraces ''{a,}{b,c}'' = Some (Inr [''ab'', ''ac'', ''{b,c}''])
   \<and> CHR ''{'' \<in> set (''{b,c}'')"
proof -
  have braces: "expandBraces ''{a,}{b,c}'' = Some (Inr [''ab'', ''ac'', ''{b,c}''])"
    by code_simp
  from nested_at_start_never_returns braces show ?thesis by simp
qed

end
